theory Spec2Isabelle
  imports Main "HOL-Library.Word"
begin

section \<open>Python values\<close>

text \<open>
  A Python \<open>str\<close> is a sequence of Unicode code points, a \<open>bytes\<close> object a sequence of
  octets. Code points are natural numbers (a \<open>str\<close> holds only values below \<open>0x110000\<close>, lone
  surrogates included); \<open>str\<close> turns an ASCII literal of the source into its code points.
\<close>

type_synonym pystr = "nat list"

type_synonym byte = "8 word"

definition str :: "string \<Rightarrow> pystr" where
  "str cs = map of_char cs"

text \<open>The exceptions the program can meet below \<open>Exception\<close>.\<close>

datatype error =
    KeyError pystr
  | TypeError
  | UnicodeEncodeError
  | UnicodeDecodeError

text \<open>
  What \<open>json.load\<close> returns: \<open>None\<close>, a \<open>bool\<close>, an \<open>int\<close>, a \<open>float\<close> (its 64 bits; the
  program never computes with one), a \<open>str\<close>, a \<open>list\<close> or a \<open>dict\<close> with \<open>str\<close> keys. The
  dict is an association list read by \<open>map_of\<close>; a dict holds each key once.
\<close>

datatype json =
    JNull
  | JBool bool
  | JInt int
  | JFloat "64 word"
  | JStr pystr
  | JArr "json list"
  | JObj "(pystr \<times> json) list"

text \<open>\<open>v[k]\<close> for a \<open>str\<close> key: only a dict can be subscripted by a string.\<close>

fun getitem :: "json \<Rightarrow> pystr \<Rightarrow> error + json" where
  "getitem (JObj kvs) k = (case map_of kvs k of None \<Rightarrow> Inl (KeyError k) | Some v \<Rightarrow> Inr v)"
| "getitem v k = Inl TypeError"

text \<open>\<open>k in v\<close> for a \<open>str\<close> k: a key of a dict, an element of a list, a substring of a str.\<close>

definition substring :: "pystr \<Rightarrow> pystr \<Rightarrow> bool" where
  "substring k s = list_ex (\<lambda>i. take (length k) (drop i s) = k) [0..<Suc (length s)]"

fun contains :: "json \<Rightarrow> pystr \<Rightarrow> error + bool" where
  "contains (JObj kvs) k = Inr (map_of kvs k \<noteq> None)"
| "contains (JArr xs) k = Inr (list_ex (\<lambda>x. x = JStr k) xs)"
| "contains (JStr s) k = Inr (substring k s)"
| "contains v k = Inl TypeError"

text \<open>\<open>for x in v\<close>: the elements of a list, the keys of a dict, the characters of a str.\<close>

fun iterate :: "json \<Rightarrow> error + json list" where
  "iterate (JArr xs) = Inr xs"
| "iterate (JObj kvs) = Inr (map (\<lambda>kv. JStr (fst kv)) kvs)"
| "iterate (JStr s) = Inr (map (\<lambda>c. JStr [c]) s)"
| "iterate v = Inl TypeError"

text \<open>Truth value of an \<open>Optional[str]\<close>: \<open>None\<close> and the empty string are false.\<close>

definition truthy :: "pystr option \<Rightarrow> bool" where
  "truthy u = (case u of None \<Rightarrow> False | Some s \<Rightarrow> s \<noteq> [])"

text \<open>\<open>v == self.username\<close> for a JSON value v.\<close>

definition eq_username :: "json \<Rightarrow> pystr option \<Rightarrow> bool" where
  "eq_username v u = (case u of None \<Rightarrow> v = JNull | Some s \<Rightarrow> v = JStr s)"

text \<open>Sequencing of two steps either of which may raise.\<close>

definition and_then :: "error + 'a \<Rightarrow> ('a \<Rightarrow> error + 'b) \<Rightarrow> error + 'b" where
  "and_then r f = (case r of Inl e \<Rightarrow> Inl e | Inr x \<Rightarrow> f x)"

section \<open>The codecs \<open>utf-8\<close> and \<open>latin1\<close>\<close>

text \<open>
  \<open>s.encode('utf-8')\<close>, strict: one to four bytes per code point; a surrogate raises
  \<open>UnicodeEncodeError\<close>.
\<close>

definition byte_of :: "nat \<Rightarrow> byte" where
  "byte_of n = of_nat n"

definition utf8_encode_char :: "nat \<Rightarrow> error + byte list" where
  "utf8_encode_char c =
     (if c < 0x80 then Inr [byte_of c]
      else if c < 0x800 then Inr [byte_of (0xC0 + c div 0x40), byte_of (0x80 + c mod 0x40)]
      else if c < 0x10000 then
        (if 0xD800 \<le> c \<and> c < 0xE000 then Inl UnicodeEncodeError
         else Inr [byte_of (0xE0 + c div 0x1000), byte_of (0x80 + c div 0x40 mod 0x40),
                   byte_of (0x80 + c mod 0x40)])
      else if c < 0x110000 then
        Inr [byte_of (0xF0 + c div 0x40000), byte_of (0x80 + c div 0x1000 mod 0x40),
             byte_of (0x80 + c div 0x40 mod 0x40), byte_of (0x80 + c mod 0x40)]
      else Inl UnicodeEncodeError)"

fun utf8_encode :: "pystr \<Rightarrow> error + byte list" where
  "utf8_encode [] = Inr []"
| "utf8_encode (c # cs) =
     (case utf8_encode_char c of
        Inl e \<Rightarrow> Inl e
      | Inr bs \<Rightarrow> (case utf8_encode cs of Inl e \<Rightarrow> Inl e | Inr r \<Rightarrow> Inr (bs @ r)))"

text \<open>
  \<open>b.decode('utf-8')\<close>, strict: the lead byte gives the length of a sequence, every other
  byte of it is a continuation byte \<open>10xxxxxx\<close>, and the decoded value must need that length
  (no overlong form), be no surrogate and lie below \<open>0x110000\<close>. Anything else raises
  \<open>UnicodeDecodeError\<close>.
\<close>

definition continuation :: "byte \<Rightarrow> bool" where
  "continuation b = (0x80 \<le> unat b \<and> unat b < 0xC0)"

definition payload :: "byte \<Rightarrow> nat" where
  "payload b = unat b - 0x80"

definition accept :: "nat \<Rightarrow> nat \<Rightarrow> (error + pystr) \<Rightarrow> error + pystr" where
  "accept lo c rest =
     (if lo \<le> c \<and> c < 0x110000 \<and> \<not> (0xD800 \<le> c \<and> c < 0xE000)
      then (case rest of Inl e \<Rightarrow> Inl e | Inr s \<Rightarrow> Inr (c # s))
      else Inl UnicodeDecodeError)"

fun utf8_decode :: "byte list \<Rightarrow> error + pystr" where
  "utf8_decode [] = Inr []"
| "utf8_decode (b # bs) =
     (if unat b < 0x80 then accept 0 (unat b) (utf8_decode bs)
      else if 0xC0 \<le> unat b \<and> unat b < 0xE0 then
        (case bs of
           b1 # r \<Rightarrow>
             if continuation b1
             then accept 0x80 ((unat b - 0xC0) * 0x40 + payload b1) (utf8_decode r)
             else Inl UnicodeDecodeError
         | _ \<Rightarrow> Inl UnicodeDecodeError)
      else if 0xE0 \<le> unat b \<and> unat b < 0xF0 then
        (case bs of
           b1 # b2 # r \<Rightarrow>
             if continuation b1 \<and> continuation b2
             then accept 0x800 ((unat b - 0xE0) * 0x1000 + payload b1 * 0x40 + payload b2)
                    (utf8_decode r)
             else Inl UnicodeDecodeError
         | _ \<Rightarrow> Inl UnicodeDecodeError)
      else if 0xF0 \<le> unat b \<and> unat b < 0xF8 then
        (case bs of
           b1 # b2 # b3 # r \<Rightarrow>
             if continuation b1 \<and> continuation b2 \<and> continuation b3
             then accept 0x10000
                    ((unat b - 0xF0) * 0x40000 + payload b1 * 0x1000 + payload b2 * 0x40
                       + payload b3)
                    (utf8_decode r)
             else Inl UnicodeDecodeError
         | _ \<Rightarrow> Inl UnicodeDecodeError)
      else Inl UnicodeDecodeError)"

text \<open>
  \<open>s.encode('latin1')\<close> raises unless every code point is below 256;
  \<open>b.decode('latin1')\<close> never fails: byte n is code point n.
\<close>

definition latin1_encode :: "pystr \<Rightarrow> error + byte list" where
  "latin1_encode s =
     (if list_all (\<lambda>c. c < 0x100) s then Inr (map byte_of s) else Inl UnicodeEncodeError)"

definition latin1_decode :: "byte list \<Rightarrow> pystr" where
  "latin1_decode bs = map unat bs"

text \<open>\<open>_fixMojibake\<close>: \<open>s.encode('latin1').decode('utf-8')\<close>.\<close>

definition fixMojibake :: "pystr \<Rightarrow> error + pystr" where
  "fixMojibake s = and_then (latin1_encode s) utf8_decode"

text \<open>\<open>_unfixMojibake\<close>: \<open>s.encode('utf-8').decode('latin1')\<close>.\<close>

definition unfixMojibake :: "pystr \<Rightarrow> error + pystr" where
  "unfixMojibake s = and_then (utf8_encode s) (\<lambda>bs. Inr (latin1_decode bs))"

section \<open>The pattern\<close>

definition MATCH_PHRASE :: pystr where
  "MATCH_PHRASE = str '' set your nickname to ''"

definition PHRASE_OFFSET :: nat where
  "PHRASE_OFFSET = length MATCH_PHRASE"

text \<open>
  \<open>_REGEX = re.compile(MATCH_PHRASE + r'.+\Z')\<close>. The pattern matches at a position when the
  phrase stands there and is followed, up to the end of the string, by one or more characters
  none of which is a line feed (\<open>.\<close> without \<open>DOTALL\<close>; \<open>\Z\<close> is the end of the string only).
  \<open>search\<close> tries the positions from the left and returns the first match: its start and
  \<open>group(0)\<close>, which runs to the end of the string. At the end of the string nothing is
  left to match.
\<close>

definition line_feed :: nat where
  "line_feed = 10"

definition match_here :: "pystr \<Rightarrow> bool" where
  "match_here s =
     (take PHRASE_OFFSET s = MATCH_PHRASE \<and> drop PHRASE_OFFSET s \<noteq> [] \<and>
      line_feed \<notin> set (drop PHRASE_OFFSET s))"

fun search_from :: "nat \<Rightarrow> pystr \<Rightarrow> (nat \<times> pystr) option" where
  "search_from i [] = None"
| "search_from i (c # cs) =
     (if match_here (c # cs) then Some (i, c # cs) else search_from (Suc i) cs)"

definition REGEX_search :: "pystr \<Rightarrow> (nat \<times> pystr) option" where
  "REGEX_search s = search_from 0 s"

section \<open>The finder\<close>

text \<open>An entry of \<open>self._result\<close>: the dict \<open>{'timestamp_ms': ..., 'nickname': ...}\<close>.\<close>

record nickname_record =
  timestamp_ms :: json
  nickname :: pystr

text \<open>The lines the program prints.\<close>

datatype line =
    INFO_skipping pystr
  | WARN_not_a_file pystr
  | WARN_not_json pystr
  | FATAL_invalid_directory pystr
  | Error_bad_json pystr
  | Found_nicknames nat
  | Nickname_count pystr nat
  | Output_written pystr
  | Usage

text \<open>
  The object's attributes, with the lines printed so far. \<open>__init__\<close> sets \<open>username\<close> only;
  \<open>_result\<close> and \<open>crashed\<close> are created by \<open>_initProcess\<close>, which every run calls first.
\<close>

record finder =
  username :: "pystr option"
  result :: "nickname_record list"
  crashed :: bool
  stdout :: "line list"

definition FBNicknameFinder :: finder where
  "FBNicknameFinder = \<lparr>username = None, result = [], crashed = False, stdout = []\<rparr>"

text \<open>
  \<open>setUsername\<close>. The state comes back with the exception, if \<open>_unfixMojibake\<close> raised one
  (after the line was printed).
\<close>

definition setUsername :: "pystr option \<Rightarrow> finder \<Rightarrow> finder \<times> error option" where
  "setUsername name st =
     (case name of
        None \<Rightarrow> (st, None)
      | Some n \<Rightarrow>
          if n \<noteq> [] then
            (case unfixMojibake n of
               Inl e \<Rightarrow> (st\<lparr>stdout := stdout st @ [INFO_skipping n]\<rparr>, Some e)
             | Inr u \<Rightarrow> (st\<lparr>username := Some u, stdout := stdout st @ [INFO_skipping n]\<rparr>, None))
          else (st, None))"

definition initProcess :: "finder \<Rightarrow> finder" where
  "initProcess st = st\<lparr>result := [], crashed := False\<rparr>"

text \<open>\<open>_isParticipant\<close>: the loop over the entries, then the function.\<close>

fun isParticipant_loop :: "pystr option \<Rightarrow> json list \<Rightarrow> error + bool" where
  "isParticipant_loop u [] = Inr False"
| "isParticipant_loop u (p # ps) =
     (case getitem p (str ''name'') of
        Inl e \<Rightarrow> Inl e
      | Inr n \<Rightarrow> if eq_username n u then Inr True else isParticipant_loop u ps)"

definition isParticipant :: "pystr option \<Rightarrow> json \<Rightarrow> error + bool" where
  "isParticipant u participants = and_then (iterate participants) (isParticipant_loop u)"

text \<open>
  The body of the loop over the messages in \<open>_findInFile\<close>, for one message: the result list
  as it stands after it, or the exception it raised (the list is then as it was).
\<close>

definition scan_message ::
  "pystr option \<Rightarrow> json \<Rightarrow> nickname_record list \<Rightarrow> error + nickname_record list" where
  "scan_message u m acc =
     and_then
       (if truthy u
        then and_then (getitem m (str ''sender_name'')) (\<lambda>sender. Inr (eq_username sender u))
        else Inr False)
       (\<lambda>own. if own then Inr acc else
     and_then (getitem m (str ''type'')) (\<lambda>ty.
     and_then
       (if ty \<noteq> JStr (str ''Generic'') then Inr True
        else and_then (contains m (str ''content'')) (\<lambda>c. Inr (\<not> c)))
       (\<lambda>skip. if skip then Inr acc else
     and_then (getitem m (str ''content'')) (\<lambda>content.
       case content of
         JStr s \<Rightarrow>
           (case REGEX_search s of
              None \<Rightarrow> Inr acc
            | Some (start, group0) \<Rightarrow>
                if start > 0 then
                  and_then (fixMojibake (butlast (drop PHRASE_OFFSET group0))) (\<lambda>foundNickname.
                  and_then (getitem m (str ''timestamp_ms'')) (\<lambda>t.
                    Inr (acc @ [\<lparr>timestamp_ms = t, nickname = foundNickname\<rparr>])))
                else Inr acc)
       | _ \<Rightarrow> Inl TypeError))))"

text \<open>
  The loop over the messages: it stops at the first exception, and the records appended
  before it stay in the list.
\<close>

fun messages_loop ::
  "pystr option \<Rightarrow> json list \<Rightarrow> nickname_record list \<Rightarrow> nickname_record list \<times> error option"
where
  "messages_loop u [] acc = (acc, None)"
| "messages_loop u (m # ms) acc =
     (case scan_message u m acc of
        Inl e \<Rightarrow> (acc, Some e)
      | Inr acc' \<Rightarrow> messages_loop u ms acc')"

text \<open>The second \<open>try\<close> block of \<open>_findInFile\<close>: the result list after it, and the exception.\<close>

definition try_body ::
  "pystr option \<Rightarrow> json \<Rightarrow> nickname_record list \<Rightarrow> nickname_record list \<times> error option"
where
  "try_body u jdata acc =
     (case (if truthy u
            then and_then (getitem jdata (str ''participants'')) (\<lambda>ps.
                 and_then (isParticipant u ps) (\<lambda>b. Inr (\<not> b)))
            else Inr False) of
        Inl e \<Rightarrow> (acc, Some e)
      | Inr True \<Rightarrow> (acc, None)
      | Inr False \<Rightarrow>
          (case and_then (getitem jdata (str ''messages'')) iterate of
             Inl e \<Rightarrow> (acc, Some e)
           | Inr ms \<Rightarrow> messages_loop u ms acc))"

section \<open>Files\<close>

text \<open>
  What a path names: nothing, a directory with the names \<open>os.listdir\<close> returns, or a regular
  file, which \<open>json.load\<close> reads as a value or fails on (\<open>None\<close>). Opening anything but a
  regular file raises.
\<close>

datatype node =
    Absent
  | Directory "pystr list"
  | Regular "json option"

type_synonym filesystem = "pystr \<Rightarrow> node"

definition isfile :: "filesystem \<Rightarrow> pystr \<Rightarrow> bool" where
  "isfile fs f = (case fs f of Regular c \<Rightarrow> True | _ \<Rightarrow> False)"

definition isdir :: "filesystem \<Rightarrow> pystr \<Rightarrow> bool" where
  "isdir fs f = (case fs f of Directory names \<Rightarrow> True | _ \<Rightarrow> False)"

definition listdir :: "filesystem \<Rightarrow> pystr \<Rightarrow> pystr list" where
  "listdir fs f = (case fs f of Directory names \<Rightarrow> names | _ \<Rightarrow> [])"

definition json_load :: "filesystem \<Rightarrow> pystr \<Rightarrow> json option" where
  "json_load fs f = (case fs f of Regular c \<Rightarrow> c | _ \<Rightarrow> None)"

text \<open>\<open>os.path.join\<close> of two components (POSIX).\<close>

definition path_join :: "pystr \<Rightarrow> pystr \<Rightarrow> pystr" where
  "path_join a b =
     (if take 1 b = str ''/'' then b
      else if a = [] \<or> last a = of_char CHR ''/'' then a @ b
      else a @ str ''/'' @ b)"

definition findInFile :: "filesystem \<Rightarrow> pystr \<Rightarrow> finder \<Rightarrow> finder" where
  "findInFile fs f st =
     (case json_load fs f of
        None \<Rightarrow> st\<lparr>stdout := stdout st @ [WARN_not_json f]\<rparr>
      | Some jdata \<Rightarrow>
          (case try_body (username st) jdata (result st) of
             (r, None) \<Rightarrow> st\<lparr>result := r\<rparr>
           | (r, Some e) \<Rightarrow> st\<lparr>result := r, stdout := stdout st @ [Error_bad_json f]\<rparr>))"

fun findInFiles_loop :: "filesystem \<Rightarrow> pystr list \<Rightarrow> finder \<Rightarrow> finder" where
  "findInFiles_loop fs [] st = st"
| "findInFiles_loop fs (f # files) st =
     (if \<not> isfile fs f
      then findInFiles_loop fs files (st\<lparr>stdout := stdout st @ [WARN_not_a_file f]\<rparr>)
      else findInFiles_loop fs files (findInFile fs f st))"

definition findInFiles :: "filesystem \<Rightarrow> pystr list \<Rightarrow> finder \<Rightarrow> finder" where
  "findInFiles fs files st = findInFiles_loop fs files (initProcess st)"

fun findInDirectory_loop :: "filesystem \<Rightarrow> pystr \<Rightarrow> pystr list \<Rightarrow> finder \<Rightarrow> finder" where
  "findInDirectory_loop fs path [] st = st"
| "findInDirectory_loop fs path (f # names) st =
     findInDirectory_loop fs path names (findInFile fs (path_join path f) st)"

definition findInDirectory :: "filesystem \<Rightarrow> pystr \<Rightarrow> finder \<Rightarrow> finder" where
  "findInDirectory fs path st =
     (if \<not> isdir fs path
      then (initProcess st)\<lparr>stdout := stdout st @ [FATAL_invalid_directory path]\<rparr>
      else findInDirectory_loop fs path (listdir fs path) (initProcess st))"

section \<open>Reporting and the command line\<close>

text \<open>
  \<open>Counter(...)\<close> over the nicknames: each distinct nickname, in the order of its first
  occurrence, with the number of its occurrences.
\<close>

definition Counter :: "pystr list \<Rightarrow> (pystr \<times> nat) list" where
  "Counter names = map (\<lambda>n. (n, count_list names n)) (rev (remdups (rev names)))"

definition printResult :: "finder \<Rightarrow> finder" where
  "printResult st =
     (let distinctNames = Counter (map nickname (result st))
      in st\<lparr>stdout := stdout st @ Found_nicknames (length distinctNames)
                # map (\<lambda>nc. Nickname_count (fst nc) (snd nc)) distinctNames\<rparr>)"

text \<open>The document \<open>writeResult\<close> dumps: \<open>{'result': ..., 'length': ...}\<close>.\<close>

record document =
  doc_result :: "nickname_record list"
  doc_length :: nat

definition writeResult :: "finder \<Rightarrow> document" where
  "writeResult st = \<lparr>doc_result = result st, doc_length = length (result st)\<rparr>"

text \<open>The parsed arguments, and what a run of the script leaves behind.\<close>

record args =
  arg_file :: "pystr list"
  arg_directory :: "pystr option"
  arg_username :: "pystr option"
  arg_output :: pystr

record outcome =
  printed :: "line list"
  written :: "(pystr \<times> document) option"
  uncaught :: "error option"

text \<open>
  The last four lines of the script: \<open>if not finder.crashed: ...\<close>. \<open>written\<close> is the path
  and the document handed to \<open>writeResult\<close>; opening the output path is taken to succeed.
\<close>

definition report :: "args \<Rightarrow> finder \<Rightarrow> outcome" where
  "report a st =
     (if \<not> crashed st
      then \<lparr>printed = stdout (printResult st) @ [Output_written (arg_output a)],
            written = Some (arg_output a, writeResult st),
            uncaught = None\<rparr>
      else \<lparr>printed = stdout st, written = None, uncaught = None\<rparr>)"

definition main :: "filesystem \<Rightarrow> args \<Rightarrow> outcome" where
  "main fs a =
     (case setUsername (arg_username a) FBNicknameFinder of
        (st, Some e) \<Rightarrow> \<lparr>printed = stdout st, written = None, uncaught = Some e\<rparr>
      | (st, None) \<Rightarrow>
          if truthy (arg_directory a)
          then report a (findInDirectory fs (case arg_directory a of Some d \<Rightarrow> d | None \<Rightarrow> []) st)
          else if arg_file a \<noteq> []
          then report a (findInFiles fs (arg_file a) st)
          else \<lparr>printed = stdout st @ [Usage], written = None, uncaught = None\<rparr>)"

section \<open>What a message and a file contribute\<close>

text \<open>
  The records one message adds to an empty result list (none if it raises), and the records
  the file at a path adds: those its \<open>try\<close> block appends to an empty list before it ends or
  raises, none if the path cannot be loaded.
\<close>

definition message_records :: "pystr option \<Rightarrow> json \<Rightarrow> nickname_record list" where
  "message_records u m = (case scan_message u m [] of Inl e \<Rightarrow> [] | Inr new \<Rightarrow> new)"

definition raises :: "pystr option \<Rightarrow> json \<Rightarrow> bool" where
  "raises u m = (case scan_message u m [] of Inl e \<Rightarrow> True | Inr new \<Rightarrow> False)"

definition file_records :: "filesystem \<Rightarrow> pystr option \<Rightarrow> pystr \<Rightarrow> nickname_record list" where
  "file_records fs u f =
     (case json_load fs f of None \<Rightarrow> [] | Some jdata \<Rightarrow> fst (try_body u jdata []))"

section \<open>Example data\<close>

text \<open>
  A Generic text message with a sender, a timestamp and a content, and a conversation file
  with its participants and messages, as the export writes them.
\<close>

definition message :: "string \<Rightarrow> int \<Rightarrow> string \<Rightarrow> json" where
  "message sender t c =
     JObj [(str ''sender_name'', JStr (str sender)), (str ''timestamp_ms'', JInt t),
           (str ''content'', JStr (str c)), (str ''type'', JStr (str ''Generic''))]"

definition conversation :: "string list \<Rightarrow> json list \<Rightarrow> json" where
  "conversation names ms =
     JObj [(str ''participants'', JArr (map (\<lambda>n. JObj [(str ''name'', JStr (str n))]) names)),
           (str ''messages'', JArr ms)]"

text \<open>
  A directory \<open>inbox\<close> with two conversation files and a file that is not JSON, and beside
  it a file \<open>bad.json\<close> whose second message sets a nickname that is the lone byte \<open>0xE9\<close>,
  which is not UTF-8.
\<close>

definition lone_byte_content :: string where
  "lone_byte_content = ''Sam set your nickname to '' @ [CHR 0xE9] @ ''.''"

definition inbox :: filesystem where
  "inbox p =
     (if p = str ''inbox'' then Directory [str ''b.json'', str ''a.json'', str ''notes.txt'']
      else if p = str ''inbox/a.json'' then
        Regular (Some (conversation [''Alice'', ''Sam'']
          [message ''Sam'' 1 ''Sam set your nickname to Bob.'',
           message ''Sam'' 1 ''Sam set your nickname to Bob.'',
           message ''Sam'' 2 ''Sam set your nickname to Al.'']))
      else if p = str ''inbox/b.json'' then
        Regular (Some (conversation [''Alice'', ''Cy'']
          [message ''Cy'' 9 ''Cy set your nickname to Ace.'']))
      else if p = str ''inbox/notes.txt'' then Regular None
      else if p = str ''bad.json'' then
        Regular (Some (conversation [''Alice'', ''Sam'']
          [message ''Sam'' 1 ''Sam set your nickname to Bob.'',
           message ''Sam'' 2 lone_byte_content,
           message ''Sam'' 3 ''Sam set your nickname to Al.'']))
      else Absent)"

section \<open>The codecs are inverse to each other\<close>

lemma unat_byte_of: "n < 256 \<Longrightarrow> unat (byte_of n) = n"
  by (simp add: byte_of_def unat_of_nat)

lemma latin1_roundtrip: "latin1_encode (latin1_decode bs) = Inr bs"
proof -
  have "unat b < 2 ^ LENGTH(8)" for b :: byte
    by (rule unsigned_less)
  then have "list_all (\<lambda>c. c < 0x100) (map unat bs)"
    by (simp add: list_all_iff)
  moreover have "map byte_of (map unat bs) = bs"
    by (simp add: byte_of_def map_idI)
  ultimately show ?thesis
    by (simp add: latin1_encode_def latin1_decode_def)
qed

lemma continuation_byte_of:
  assumes "x < 0x40"
  shows "continuation (byte_of (0x80 + x))" and "payload (byte_of (0x80 + x)) = x"
proof -
  have "unat (byte_of (0x80 + x)) = 0x80 + x"
    using assms by (intro unat_byte_of) simp
  then show "continuation (byte_of (0x80 + x))" and "payload (byte_of (0x80 + x)) = x"
    using assms by (simp_all add: continuation_def payload_def)
qed

lemma split_three: "(c::nat) div 0x1000 * 0x1000 + c div 0x40 mod 0x40 * 0x40 + c mod 0x40 = c"
proof -
  have "c mod (0x40 * 0x40) = 0x40 * (c div 0x40 mod 0x40) + c mod 0x40"
    by (rule mod_mult2_eq)
  then have "c mod 0x1000 = c div 0x40 mod 0x40 * 0x40 + c mod 0x40"
    by simp
  moreover have "c div 0x1000 * 0x1000 + c mod 0x1000 = c"
    by simp
  ultimately show ?thesis
    by linarith
qed

lemma split_four:
  "(c::nat) div 0x40000 * 0x40000 + c div 0x1000 mod 0x40 * 0x1000 + c div 0x40 mod 0x40 * 0x40
     + c mod 0x40 = c"
proof -
  have "c mod (0x1000 * 0x40) = 0x1000 * (c div 0x1000 mod 0x40) + c mod 0x1000"
    by (rule mod_mult2_eq)
  then have "c mod 0x40000 = c div 0x1000 mod 0x40 * 0x1000 + c mod 0x1000"
    by simp
  moreover have "c mod (0x40 * 0x40) = 0x40 * (c div 0x40 mod 0x40) + c mod 0x40"
    by (rule mod_mult2_eq)
  then have "c mod 0x1000 = c div 0x40 mod 0x40 * 0x40 + c mod 0x40"
    by simp
  moreover have "c div 0x40000 * 0x40000 + c mod 0x40000 = c"
    by simp
  ultimately show ?thesis
    by linarith
qed

lemma decode_one_raw:
  "unat b < 0x80 \<Longrightarrow> utf8_decode (b # rest) = accept 0 (unat b) (utf8_decode rest)"
  by simp

lemma decode_two_raw:
  "\<lbrakk>unat b = 0xC0 + h; h < 0x20; continuation b1\<rbrakk> \<Longrightarrow>
   utf8_decode (b # b1 # rest) = accept 0x80 (h * 0x40 + payload b1) (utf8_decode rest)"
  by simp

lemma decode_three_raw:
  "\<lbrakk>unat b = 0xE0 + h; h < 0x10; continuation b1; continuation b2\<rbrakk> \<Longrightarrow>
   utf8_decode (b # b1 # b2 # rest)
     = accept 0x800 (h * 0x1000 + payload b1 * 0x40 + payload b2) (utf8_decode rest)"
  by simp

lemma decode_four_raw:
  "\<lbrakk>unat b = 0xF0 + h; h < 0x8; continuation b1; continuation b2; continuation b3\<rbrakk> \<Longrightarrow>
   utf8_decode (b # b1 # b2 # b3 # rest)
     = accept 0x10000 (h * 0x40000 + payload b1 * 0x1000 + payload b2 * 0x40 + payload b3)
         (utf8_decode rest)"
  by simp


lemma decode_encode_char:
  assumes "utf8_encode_char c = Inr bs"
  shows "utf8_decode (bs @ rest) = and_then (utf8_decode rest) (\<lambda>s. Inr (c # s))"
proof -
  consider (one) "c < 0x80"
    | (two) "0x80 \<le> c" "c < 0x800"
    | (three) "0x800 \<le> c" "c < 0x10000" "\<not> (0xD800 \<le> c \<and> c < 0xE000)"
    | (four) "0x10000 \<le> c" "c < 0x110000"
    using assms by (auto simp: utf8_encode_char_def split: if_splits)
  then show ?thesis
  proof cases
    case one
    then have bs: "bs = [byte_of c]"
      using assms by (simp add: utf8_encode_char_def)
    have u: "unat (byte_of c) = c"
      using one by (intro unat_byte_of) simp
    have "utf8_decode (byte_of c # rest) = accept 0 c (utf8_decode rest)"
      using decode_one_raw [of "byte_of c" rest] one by (simp only: u)
    then show ?thesis
      using one by (simp add: bs accept_def and_then_def del: utf8_decode.simps)
  next
    case two
    then have bs: "bs = [byte_of (0xC0 + c div 0x40), byte_of (0x80 + c mod 0x40)]"
      using assms by (simp add: utf8_encode_char_def)
    have h: "c div 0x40 < 0x20"
      using two by simp
    have u: "unat (byte_of (0xC0 + c div 0x40)) = 0xC0 + c div 0x40"
      using h by (intro unat_byte_of) simp
    have l: "c mod 0x40 < 0x40"
      by simp
    have "utf8_decode (byte_of (0xC0 + c div 0x40) # byte_of (0x80 + c mod 0x40) # rest)
            = accept 0x80 (c div 0x40 * 0x40 + c mod 0x40) (utf8_decode rest)"
      using decode_two_raw [OF u h continuation_byte_of(1) [OF l], of rest]
      by (simp only: continuation_byte_of(2) [OF l])
    then show ?thesis
      using two by (simp add: bs accept_def and_then_def del: utf8_decode.simps)
  next
    case three
    then have bs: "bs = [byte_of (0xE0 + c div 0x1000), byte_of (0x80 + c div 0x40 mod 0x40),
                         byte_of (0x80 + c mod 0x40)]"
      using assms by (auto simp: utf8_encode_char_def split: if_splits)
    have h: "c div 0x1000 < 0x10"
      using three by simp
    have u: "unat (byte_of (0xE0 + c div 0x1000)) = 0xE0 + c div 0x1000"
      using h by (intro unat_byte_of) simp
    have m: "c div 0x40 mod 0x40 < 0x40" and l: "c mod 0x40 < 0x40"
      by simp_all
    have "utf8_decode (byte_of (0xE0 + c div 0x1000) # byte_of (0x80 + c div 0x40 mod 0x40)
              # byte_of (0x80 + c mod 0x40) # rest)
            = accept 0x800 (c div 0x1000 * 0x1000 + c div 0x40 mod 0x40 * 0x40 + c mod 0x40)
                (utf8_decode rest)"
      using decode_three_raw [OF u h continuation_byte_of(1) [OF m] continuation_byte_of(1) [OF l],
          of rest]
      by (simp only: continuation_byte_of(2) [OF m] continuation_byte_of(2) [OF l])
    then have "utf8_decode (bs @ rest) = accept 0x800 c (utf8_decode rest)"
      by (simp only: split_three bs append_Cons append_Nil)
    then show ?thesis
      using three by (simp add: accept_def and_then_def del: utf8_decode.simps)
  next
    case four
    then have bs: "bs = [byte_of (0xF0 + c div 0x40000), byte_of (0x80 + c div 0x1000 mod 0x40),
                         byte_of (0x80 + c div 0x40 mod 0x40), byte_of (0x80 + c mod 0x40)]"
      using assms by (simp add: utf8_encode_char_def)
    have h: "c div 0x40000 < 0x8"
      using four by simp
    have u: "unat (byte_of (0xF0 + c div 0x40000)) = 0xF0 + c div 0x40000"
      using h by (intro unat_byte_of) simp
    have k: "c div 0x1000 mod 0x40 < 0x40" and m: "c div 0x40 mod 0x40 < 0x40"
      and l: "c mod 0x40 < 0x40"
      by simp_all
    have "utf8_decode (byte_of (0xF0 + c div 0x40000) # byte_of (0x80 + c div 0x1000 mod 0x40)
              # byte_of (0x80 + c div 0x40 mod 0x40) # byte_of (0x80 + c mod 0x40) # rest)
            = accept 0x10000
                (c div 0x40000 * 0x40000 + c div 0x1000 mod 0x40 * 0x1000
                   + c div 0x40 mod 0x40 * 0x40 + c mod 0x40)
                (utf8_decode rest)"
      using decode_four_raw [OF u h continuation_byte_of(1) [OF k] continuation_byte_of(1) [OF m]
          continuation_byte_of(1) [OF l], of rest]
      by (simp only: continuation_byte_of(2) [OF k] continuation_byte_of(2) [OF m]
          continuation_byte_of(2) [OF l])
    then have "utf8_decode (bs @ rest) = accept 0x10000 c (utf8_decode rest)"
      by (simp only: split_four bs append_Cons append_Nil)
    then show ?thesis
      using four by (simp add: accept_def and_then_def del: utf8_decode.simps)
  qed
qed

lemma utf8_roundtrip: "utf8_encode s = Inr bs \<Longrightarrow> utf8_decode bs = Inr s"
proof (induction s arbitrary: bs)
  case Nil
  then show ?case by simp
next
  case (Cons c s)
  then obtain b r where b: "utf8_encode_char c = Inr b" and r: "utf8_encode s = Inr r"
    and bs: "bs = b @ r"
    by (auto split: sum.splits)
  show ?case
    using decode_encode_char [OF b, of r] Cons.IH [OF r] by (simp add: bs and_then_def)
qed

lemma utf8_encode_total:
  "list_all (\<lambda>c. c < 0x110000 \<and> \<not> (0xD800 \<le> c \<and> c < 0xE000)) s \<Longrightarrow> \<exists>bs. utf8_encode s = Inr bs"
proof (induction s)
  case Nil
  then show ?case by simp
next
  case (Cons c s)
  then obtain r where r: "utf8_encode s = Inr r" by auto
  from Cons.prems have "\<exists>b. utf8_encode_char c = Inr b"
    by (simp add: utf8_encode_char_def)
  with r show ?case by auto
qed

text \<open>
  C4. For every string \<open>s\<close> that has a UTF-8 encoding \<open>bs\<close> (each of its bytes is then a
  Latin-1 code point), \<open>unfixMojibake s\<close> returns those bytes read as Latin-1 code points, all
  below 256, and \<open>fixMojibake\<close> of that string returns \<open>s\<close>:
  \<open>fixMojibake(unfixMojibake(s)) == s\<close>.
\<close>

theorem fixMojibake_unfixMojibake:
  assumes "utf8_encode s = Inr bs"
  shows "unfixMojibake s = Inr (latin1_decode bs)
       \<and> list_all (\<lambda>c. c < 0x100) (latin1_decode bs)
       \<and> fixMojibake (latin1_decode bs) = Inr s
       \<and> and_then (unfixMojibake s) fixMojibake = Inr s"
proof -
  have unfix: "unfixMojibake s = Inr (latin1_decode bs)"
    using assms by (simp add: unfixMojibake_def and_then_def)
  have "latin1_encode (latin1_decode bs) = Inr bs"
    by (rule latin1_roundtrip)
  then have latin: "list_all (\<lambda>c. c < 0x100) (latin1_decode bs)"
    by (simp add: latin1_encode_def split: if_splits)
  have fixed: "fixMojibake (latin1_decode bs) = Inr s"
    using utf8_roundtrip [OF assms] by (simp add: fixMojibake_def and_then_def latin1_roundtrip)
  show ?thesis
    using unfix latin fixed by (simp add: and_then_def)
qed

theorem fixMojibake_unfixMojibake_witness:
  "utf8_encode [0xE9, 0x20AC, 0x1F600, 0x41]
     = Inr [0xC3, 0xA9, 0xE2, 0x82, 0xAC, 0xF0, 0x9F, 0x98, 0x80, 0x41]
   \<and> unfixMojibake [0xE9, 0x20AC, 0x1F600, 0x41]
     = Inr [0xC3, 0xA9, 0xE2, 0x82, 0xAC, 0xF0, 0x9F, 0x98, 0x80, 0x41]
   \<and> fixMojibake [0xC3, 0xA9, 0xE2, 0x82, 0xAC, 0xF0, 0x9F, 0x98, 0x80, 0x41]
     = Inr [0xE9, 0x20AC, 0x1F600, 0x41]"
proof -
  have enc: "utf8_encode [0xE9, 0x20AC, 0x1F600, 0x41]
     = Inr [0xC3, 0xA9, 0xE2, 0x82, 0xAC, 0xF0, 0x9F, 0x98, 0x80, 0x41]"
    by (simp add: utf8_encode_char_def byte_of_def)
  show ?thesis
    using enc fixMojibake_unfixMojibake [OF enc] by (simp add: latin1_decode_def)
qed

section \<open>Scanning one message\<close>

lemma getitem_Inr:
  "getitem m k = Inr v \<Longrightarrow> \<exists>kvs. m = JObj kvs \<and> map_of kvs k = Some v"
  by (cases m) (auto split: option.splits)

lemma scan_message_eligible:
  assumes sender: "\<not> truthy u \<or> (\<exists>sn. getitem m (str ''sender_name'') = Inr sn \<and> \<not> eq_username sn u)"
    and ty: "getitem m (str ''type'') = Inr (JStr (str ''Generic''))"
    and content: "getitem m (str ''content'') = Inr (JStr s)"
  shows "scan_message u m acc =
     (case REGEX_search s of
        None \<Rightarrow> Inr acc
      | Some (start, group0) \<Rightarrow>
          if 0 < start then
            and_then (fixMojibake (butlast (drop PHRASE_OFFSET group0))) (\<lambda>foundNickname.
            and_then (getitem m (str ''timestamp_ms'')) (\<lambda>t.
              Inr (acc @ [\<lparr>timestamp_ms = t, nickname = foundNickname\<rparr>])))
          else Inr acc)"
proof -
  obtain kvs where m: "m = JObj kvs" and c: "map_of kvs (str ''content'') = Some (JStr s)"
    using getitem_Inr [OF content] by blast
  have has: "contains m (str ''content'') = Inr True"
    by (simp add: m c)
  have own: "(if truthy u
        then and_then (getitem m (str ''sender_name'')) (\<lambda>sender. Inr (eq_username sender u))
        else Inr False) = Inr False"
    using sender by (auto simp: and_then_def)
  show ?thesis
    unfolding scan_message_def own
    by (simp add: and_then_def ty has content)
qed

lemma MATCH_PHRASE_nonempty: "MATCH_PHRASE \<noteq> []"
  by (simp add: MATCH_PHRASE_def str_def)

lemma match_here_nonempty: "match_here t \<Longrightarrow> t \<noteq> []"
  using MATCH_PHRASE_nonempty by (auto simp: match_here_def)

lemma search_from_hit: "match_here t \<Longrightarrow> search_from i t = Some (i, t)"
  using match_here_nonempty [of t] by (cases t) simp_all

lemma search_from_skip:
  assumes "\<forall>j<length A. \<not> match_here (drop j (A @ t))" and "match_here t"
  shows "search_from i (A @ t) = Some (i + length A, t)"
  using assms
proof (induction A arbitrary: i)
  case Nil
  then show ?case by (simp add: search_from_hit)
next
  case (Cons a A)
  from Cons.prems(1) have here: "\<not> match_here (a # A @ t)"
    by (auto dest: spec [of _ 0])
  have "\<forall>j<length A. \<not> match_here (drop j (A @ t))"
  proof (intro allI impI)
    fix j assume "j < length A"
    then have "Suc j < length (a # A)" by simp
    with Cons.prems(1) have "\<not> match_here (drop (Suc j) ((a # A) @ t))" by blast
    then show "\<not> match_here (drop j (A @ t))" by simp
  qed
  from Cons.IH [OF this Cons.prems(2), of "Suc i"] here show ?case
    by simp
qed

lemma match_here_phrase:
  "rest \<noteq> [] \<Longrightarrow> line_feed \<notin> set rest \<Longrightarrow> match_here (MATCH_PHRASE @ rest)"
  by (simp add: match_here_def PHRASE_OFFSET_def)

lemma scan_message_appends_only_after_offset:
  assumes "scan_message u m acc = Inr acc'" and "acc' \<noteq> acc"
  shows "\<exists>s start group0. getitem m (str ''content'') = Inr (JStr s)
           \<and> REGEX_search s = Some (start, group0) \<and> 0 < start"
  using assms unfolding scan_message_def and_then_def
  by (auto split: sum.splits if_splits json.splits option.splits prod.splits)

lemmas eval_defs = str_def MATCH_PHRASE_def PHRASE_OFFSET_def match_here_def line_feed_def
  REGEX_search_def

text \<open>
  C2, as amended. Let a message pass the sender filter and the type filter, and let its
  content be \<open>A + ' set your nickname to ' + B + '.'\<close> with \<open>A\<close> non-empty. If the pattern
  matches at no position before \<open>len(A)\<close>, \<open>B\<close> holds no line feed, \<open>_fixMojibake(B)\<close> returns
  \<open>n\<close> and the message has a \<open>timestamp_ms\<close> \<open>t\<close>, then processing the message appends exactly
  one record, \<open>{'timestamp_ms': t, 'nickname': n}\<close>.
\<close>

theorem nickname_record_appended:
  assumes sender: "\<not> truthy u \<or> (\<exists>sn. getitem m (str ''sender_name'') = Inr sn \<and> \<not> eq_username sn u)"
    and ty: "getitem m (str ''type'') = Inr (JStr (str ''Generic''))"
    and content: "getitem m (str ''content'') = Inr (JStr (A @ MATCH_PHRASE @ B @ str ''.''))"
    and ts: "getitem m (str ''timestamp_ms'') = Inr t"
    and prefix: "A \<noteq> []"
    and leftmost: "\<forall>j<length A. \<not> match_here (drop j (A @ MATCH_PHRASE @ B @ str ''.''))"
    and one_line: "line_feed \<notin> set B"
    and repaired: "fixMojibake B = Inr n"
  shows "scan_message u m acc = Inr (acc @ [\<lparr>timestamp_ms = t, nickname = n\<rparr>])"
proof -
  have dot: "str ''.'' = [46]"
    by (simp add: str_def)
  have "match_here (MATCH_PHRASE @ B @ str ''.'')"
    using one_line by (intro match_here_phrase) (simp_all add: dot line_feed_def)
  from search_from_skip [OF leftmost this, of 0]
  have found: "REGEX_search (A @ MATCH_PHRASE @ B @ str ''.'')
                 = Some (length A, MATCH_PHRASE @ B @ str ''.'')"
    by (simp add: REGEX_search_def)
  have raw: "butlast (drop PHRASE_OFFSET (MATCH_PHRASE @ B @ str ''.'')) = B"
    by (simp add: PHRASE_OFFSET_def dot butlast_append)
  show ?thesis
    using prefix
    by (simp add: scan_message_eligible [OF sender ty content] found raw repaired ts and_then_def
        del: drop_append)
qed

text \<open>The theorem at the message \<open>'Sam set your nickname to Bob.'\<close>, with username Alice.\<close>

theorem nickname_record_appended_witness:
  "scan_message (Some (str ''Alice''))
     (JObj [(str ''sender_name'', JStr (str ''Sam'')), (str ''timestamp_ms'', JInt 1500000000000),
            (str ''content'', JStr (str ''Sam set your nickname to Bob.'')),
            (str ''type'', JStr (str ''Generic''))])
     [\<lparr>timestamp_ms = JInt 7, nickname = str ''Al''\<rparr>]
   = Inr [\<lparr>timestamp_ms = JInt 7, nickname = str ''Al''\<rparr>,
          \<lparr>timestamp_ms = JInt 1500000000000, nickname = str ''Bob''\<rparr>]"
proof -
  let ?m = "JObj [(str ''sender_name'', JStr (str ''Sam'')), (str ''timestamp_ms'', JInt 1500000000000),
            (str ''content'', JStr (str ''Sam set your nickname to Bob.'')),
            (str ''type'', JStr (str ''Generic''))]"
  have sender: "\<not> truthy (Some (str ''Alice'')) \<or>
      (\<exists>sn. getitem ?m (str ''sender_name'') = Inr sn \<and> \<not> eq_username sn (Some (str ''Alice'')))"
    by (simp add: eq_username_def str_def)
  have ty: "getitem ?m (str ''type'') = Inr (JStr (str ''Generic''))"
    by (simp add: str_def)
  have content: "getitem ?m (str ''content'')
      = Inr (JStr (str ''Sam'' @ MATCH_PHRASE @ str ''Bob'' @ str ''.''))"
    by (simp add: str_def MATCH_PHRASE_def)
  have ts: "getitem ?m (str ''timestamp_ms'') = Inr (JInt 1500000000000)"
    by (simp add: str_def)
  have prefix: "str ''Sam'' \<noteq> []"
    by (simp add: str_def)
  have leftmost: "\<forall>j<length (str ''Sam'').
      \<not> match_here (drop j (str ''Sam'' @ MATCH_PHRASE @ str ''Bob'' @ str ''.''))"
    by (simp add: eval_defs All_less_Suc numeral_3_eq_3)
  have one_line: "line_feed \<notin> set (str ''Bob'')"
    by (simp add: str_def line_feed_def)
  have repaired: "fixMojibake (str ''Bob'') = Inr (str ''Bob'')"
    by (simp add: fixMojibake_def latin1_encode_def and_then_def str_def byte_of_def accept_def)
  show ?thesis
    using nickname_record_appended [OF sender ty content ts prefix leftmost one_line repaired,
        of "[\<lparr>timestamp_ms = JInt 7, nickname = str ''Al''\<rparr>]"]
    by simp
qed

text \<open>
  C2 as stated fails: the content below is \<open>A + ' set your nickname to ' + B + '.'\<close> with
  \<open>A = 'Sam set your nickname to Al'\<close> and \<open>B = 'Bob'\<close>, and the record appended holds the
  nickname \<open>'Al set your nickname to Bob'\<close>, since \<open>search\<close> returns the leftmost match.
\<close>

theorem nickname_not_always_B_counterexample:
  "getitem (JObj [(str ''sender_name'', JStr (str ''Sam'')), (str ''timestamp_ms'', JInt 1),
            (str ''content'', JStr (str ''Sam set your nickname to Al set your nickname to Bob.'')),
            (str ''type'', JStr (str ''Generic''))]) (str ''content'')
     = Inr (JStr (str ''Sam set your nickname to Al'' @ MATCH_PHRASE @ str ''Bob'' @ str ''.''))
   \<and> str ''Sam set your nickname to Al'' \<noteq> []
   \<and> fixMojibake (str ''Bob'') = Inr (str ''Bob'')
   \<and> scan_message None
       (JObj [(str ''sender_name'', JStr (str ''Sam'')), (str ''timestamp_ms'', JInt 1),
            (str ''content'', JStr (str ''Sam set your nickname to Al set your nickname to Bob.'')),
            (str ''type'', JStr (str ''Generic''))]) []
     = Inr [\<lparr>timestamp_ms = JInt 1, nickname = str ''Al set your nickname to Bob''\<rparr>]
   \<and> scan_message None
       (JObj [(str ''sender_name'', JStr (str ''Sam'')), (str ''timestamp_ms'', JInt 1),
            (str ''content'', JStr (str ''Sam set your nickname to Al set your nickname to Bob.'')),
            (str ''type'', JStr (str ''Generic''))]) []
     \<noteq> Inr [\<lparr>timestamp_ms = JInt 1, nickname = str ''Bob''\<rparr>]"
  by (simp add: scan_message_def and_then_def truthy_def eval_defs fixMojibake_def
      latin1_encode_def accept_def byte_of_def)

lemma search_offset_examples:
  "REGEX_search (str ''set your nickname to Bob.'') = None"
  "REGEX_search (str '' set your nickname to Bob.'') = Some (0, str '' set your nickname to Bob.'')"
  "REGEX_search (str ''Sam set your nickname to Bob.'') = Some (3, str '' set your nickname to Bob.'')"
  by (simp_all add: eval_defs)

lemma fixMojibake_Bob:
  "fixMojibake (butlast (drop PHRASE_OFFSET (str '' set your nickname to Bob.''))) = Inr (str ''Bob'')"
  by (simp add: eval_defs fixMojibake_def latin1_encode_def and_then_def byte_of_def accept_def)

text \<open>
  C5. A message gains a record only through a match that starts at an offset greater than 0:
  whenever processing a message makes the result list differ, its content is a string in which
  \<open>search\<close> found a match starting after offset 0. The content
  \<open>'set your nickname to Bob.'\<close> has no match at all (the phrase begins with a space), the
  content \<open>' set your nickname to Bob.'\<close> has its match at offset 0, and a message that
  passes the filters with either content leaves the result list as it was; with the content
  \<open>'Sam set your nickname to Bob.'\<close> the match starts at offset 3 and the record with the
  nickname \<open>'Bob'\<close> is appended.
\<close>

theorem record_needs_positive_offset:
  "(scan_message u m acc = Inr acc' \<and> acc' \<noteq> acc \<longrightarrow>
      (\<exists>s start group0. getitem m (str ''content'') = Inr (JStr s)
          \<and> REGEX_search s = Some (start, group0) \<and> 0 < start))
   \<and> REGEX_search (str ''set your nickname to Bob.'') = None
   \<and> REGEX_search (str '' set your nickname to Bob.'')
        = Some (0, str '' set your nickname to Bob.'')
   \<and> REGEX_search (str ''Sam set your nickname to Bob.'')
        = Some (3, str '' set your nickname to Bob.'')
   \<and> ((\<not> truthy u \<or> (\<exists>sn. getitem m1 (str ''sender_name'') = Inr sn \<and> \<not> eq_username sn u))
        \<and> getitem m1 (str ''type'') = Inr (JStr (str ''Generic''))
        \<and> getitem m1 (str ''content'') = Inr (JStr (str ''set your nickname to Bob.''))
      \<longrightarrow> scan_message u m1 acc = Inr acc)
   \<and> ((\<not> truthy u \<or> (\<exists>sn. getitem m2 (str ''sender_name'') = Inr sn \<and> \<not> eq_username sn u))
        \<and> getitem m2 (str ''type'') = Inr (JStr (str ''Generic''))
        \<and> getitem m2 (str ''content'') = Inr (JStr (str '' set your nickname to Bob.''))
      \<longrightarrow> scan_message u m2 acc = Inr acc)
   \<and> ((\<not> truthy u \<or> (\<exists>sn. getitem m3 (str ''sender_name'') = Inr sn \<and> \<not> eq_username sn u))
        \<and> getitem m3 (str ''type'') = Inr (JStr (str ''Generic''))
        \<and> getitem m3 (str ''content'') = Inr (JStr (str ''Sam set your nickname to Bob.''))
        \<and> getitem m3 (str ''timestamp_ms'') = Inr t
      \<longrightarrow> scan_message u m3 acc = Inr (acc @ [\<lparr>timestamp_ms = t, nickname = str ''Bob''\<rparr>]))"
proof (intro conjI impI)
  assume "scan_message u m acc = Inr acc' \<and> acc' \<noteq> acc"
  then show "\<exists>s start group0. getitem m (str ''content'') = Inr (JStr s)
          \<and> REGEX_search s = Some (start, group0) \<and> 0 < start"
    using scan_message_appends_only_after_offset by blast
next
  show "REGEX_search (str ''set your nickname to Bob.'') = None"
    by (rule search_offset_examples)
next
  show "REGEX_search (str '' set your nickname to Bob.'')
        = Some (0, str '' set your nickname to Bob.'')"
    by (rule search_offset_examples)
next
  show "REGEX_search (str ''Sam set your nickname to Bob.'')
        = Some (3, str '' set your nickname to Bob.'')"
    by (rule search_offset_examples)
next
  assume "(\<not> truthy u \<or> (\<exists>sn. getitem m1 (str ''sender_name'') = Inr sn \<and> \<not> eq_username sn u))
        \<and> getitem m1 (str ''type'') = Inr (JStr (str ''Generic''))
        \<and> getitem m1 (str ''content'') = Inr (JStr (str ''set your nickname to Bob.''))"
  then show "scan_message u m1 acc = Inr acc"
    by (simp add: scan_message_eligible search_offset_examples)
next
  assume "(\<not> truthy u \<or> (\<exists>sn. getitem m2 (str ''sender_name'') = Inr sn \<and> \<not> eq_username sn u))
        \<and> getitem m2 (str ''type'') = Inr (JStr (str ''Generic''))
        \<and> getitem m2 (str ''content'') = Inr (JStr (str '' set your nickname to Bob.''))"
  then show "scan_message u m2 acc = Inr acc"
    by (simp add: scan_message_eligible search_offset_examples)
next
  assume "(\<not> truthy u \<or> (\<exists>sn. getitem m3 (str ''sender_name'') = Inr sn \<and> \<not> eq_username sn u))
        \<and> getitem m3 (str ''type'') = Inr (JStr (str ''Generic''))
        \<and> getitem m3 (str ''content'') = Inr (JStr (str ''Sam set your nickname to Bob.''))
        \<and> getitem m3 (str ''timestamp_ms'') = Inr t"
  then show "scan_message u m3 acc = Inr (acc @ [\<lparr>timestamp_ms = t, nickname = str ''Bob''\<rparr>])"
    by (simp add: scan_message_eligible search_offset_examples fixMojibake_Bob and_then_def)
qed


text \<open>The three contents, each in a Generic message from Sam, with no username configured.\<close>

theorem record_needs_positive_offset_witness:
  "scan_message None
     (JObj [(str ''sender_name'', JStr (str ''Sam'')), (str ''timestamp_ms'', JInt 1),
            (str ''content'', JStr (str ''set your nickname to Bob.'')),
            (str ''type'', JStr (str ''Generic''))]) [] = Inr []
   \<and> scan_message None
     (JObj [(str ''sender_name'', JStr (str ''Sam'')), (str ''timestamp_ms'', JInt 2),
            (str ''content'', JStr (str '' set your nickname to Bob.'')),
            (str ''type'', JStr (str ''Generic''))]) [] = Inr []
   \<and> scan_message None
     (JObj [(str ''sender_name'', JStr (str ''Sam'')), (str ''timestamp_ms'', JInt 3),
            (str ''content'', JStr (str ''Sam set your nickname to Bob.'')),
            (str ''type'', JStr (str ''Generic''))]) []
       = Inr [\<lparr>timestamp_ms = JInt 3, nickname = str ''Bob''\<rparr>]"
  using record_needs_positive_offset
    [where u = None and acc = "[]" and t = "JInt 3"
       and ?m1.0 = "JObj [(str ''sender_name'', JStr (str ''Sam'')), (str ''timestamp_ms'', JInt 1),
            (str ''content'', JStr (str ''set your nickname to Bob.'')),
            (str ''type'', JStr (str ''Generic''))]"
       and ?m2.0 = "JObj [(str ''sender_name'', JStr (str ''Sam'')), (str ''timestamp_ms'', JInt 2),
            (str ''content'', JStr (str '' set your nickname to Bob.'')),
            (str ''type'', JStr (str ''Generic''))]"
       and ?m3.0 = "JObj [(str ''sender_name'', JStr (str ''Sam'')), (str ''timestamp_ms'', JInt 3),
            (str ''content'', JStr (str ''Sam set your nickname to Bob.'')),
            (str ''type'', JStr (str ''Generic''))]"
       and m = "JObj [(str ''sender_name'', JStr (str ''Sam'')), (str ''timestamp_ms'', JInt 3),
            (str ''content'', JStr (str ''Sam set your nickname to Bob.'')),
            (str ''type'', JStr (str ''Generic''))]"
       and acc' = "[\<lparr>timestamp_ms = JInt 3, nickname = str ''Bob''\<rparr>]"]
  by (simp add: truthy_def str_def)

section \<open>The loops over messages and files\<close>

lemma scan_message_acc:
  "scan_message u m acc =
     (case scan_message u m [] of Inl e \<Rightarrow> Inl e | Inr new \<Rightarrow> Inr (acc @ new))"
  unfolding scan_message_def and_then_def
  by (simp split: sum.splits json.splits option.splits prod.splits)

lemma scan_message_records:
  "scan_message u m acc = Inr acc' \<Longrightarrow> acc' = acc @ message_records u m"
  by (subst (asm) scan_message_acc) (simp add: message_records_def split: sum.splits)

lemma scan_message_raises: "raises u m \<longleftrightarrow> (\<exists>e. scan_message u m acc = Inl e)"
  by (subst scan_message_acc) (simp add: raises_def split: sum.splits)

lemma messages_loop_append:
  "messages_loop u (pre @ post) acc =
     (case messages_loop u pre acc of
        (acc', None) \<Rightarrow> messages_loop u post acc'
      | (acc', Some e) \<Rightarrow> (acc', Some e))"
  by (induction pre arbitrary: acc) (simp_all split: sum.splits)

lemma messages_loop_acc:
  "messages_loop u ms acc = (acc @ fst (messages_loop u ms []), snd (messages_loop u ms []))"
proof (induction ms arbitrary: acc)
  case Nil
  show ?case by simp
next
  case (Cons m ms)
  show ?case
  proof (cases "scan_message u m []")
    case (Inl e)
    then have "scan_message u m acc = Inl e"
      by (subst scan_message_acc) simp
    with Inl show ?thesis by simp
  next
    case (Inr new)
    then have "scan_message u m acc = Inr (acc @ new)"
      by (subst scan_message_acc) simp
    with Inr Cons.IH [of "acc @ new"] Cons.IH [of new] show ?thesis by simp
  qed
qed

lemma messages_loop_records:
  "fst (messages_loop u ms []) = concat (map (message_records u) (takeWhile (\<lambda>m. \<not> raises u m) ms))"
proof (induction ms)
  case Nil
  show ?case by simp
next
  case (Cons m ms)
  show ?case
  proof (cases "scan_message u m []")
    case (Inl e)
    then show ?thesis by (simp add: raises_def)
  next
    case (Inr new)
    with Cons.IH messages_loop_acc [of u ms new] show ?thesis
      by (simp add: raises_def message_records_def)
  qed
qed

lemma try_body_acc:
  "try_body u jdata acc = (acc @ fst (try_body u jdata []), snd (try_body u jdata []))"
  unfolding try_body_def
  using messages_loop_acc [of u _ acc]
  by (simp split: sum.splits bool.splits)

lemma username_findInFile [simp]: "username (findInFile fs f st) = username st"
  by (simp add: findInFile_def split: option.splits prod.splits)

lemma result_findInFile:
  "result (findInFile fs f st) = result st @ file_records fs (username st) f"
  using try_body_acc [of "username st" _ "result st"]
  by (auto simp: findInFile_def file_records_def split: option.splits prod.splits)

lemma json_load_isfile: "json_load fs f = Some jdata \<Longrightarrow> isfile fs f"
  by (simp add: json_load_def isfile_def split: node.splits)

lemma file_records_not_a_file: "\<not> isfile fs f \<Longrightarrow> file_records fs u f = []"
  by (auto simp: file_records_def dest: json_load_isfile split: option.splits)

lemma findInFiles_loop_result:
  "username (findInFiles_loop fs files st) = username st \<and>
   result (findInFiles_loop fs files st)
     = result st @ concat (map (file_records fs (username st)) files)"
  by (induction files arbitrary: st) (simp_all add: result_findInFile file_records_not_a_file)

lemma findInDirectory_loop_result:
  "username (findInDirectory_loop fs path names st) = username st \<and>
   result (findInDirectory_loop fs path names st)
     = result st @ concat (map (\<lambda>n. file_records fs (username st) (path_join path n)) names)"
  by (induction names arbitrary: st) (simp_all add: result_findInFile)

lemma str_eq_iff [simp]: "str a = str b \<longleftrightarrow> a = b"
  unfolding str_def using inj_of_char [where ?'a = nat] by simp

lemma try_body_loop:
  assumes "\<not> truthy u \<or> (\<exists>ps. getitem jdata (str ''participants'') = Inr ps \<and> isParticipant u ps = Inr True)"
    and "and_then (getitem jdata (str ''messages'')) iterate = Inr ms"
  shows "try_body u jdata acc = messages_loop u ms acc"
  using assms by (auto simp: try_body_def and_then_def)

lemma scan_message_example:
  "scan_message None (message ''Sam'' t ''Sam set your nickname to Bob.'') acc
     = Inr (acc @ [\<lparr>timestamp_ms = JInt t, nickname = str ''Bob''\<rparr>])"
  "scan_message None (message ''Sam'' t ''Sam set your nickname to Al.'') acc
     = Inr (acc @ [\<lparr>timestamp_ms = JInt t, nickname = str ''Al''\<rparr>])"
  "scan_message None (message ''Cy'' t ''Cy set your nickname to Ace.'') acc
     = Inr (acc @ [\<lparr>timestamp_ms = JInt t, nickname = str ''Ace''\<rparr>])"
  by (simp_all add: message_def scan_message_def and_then_def truthy_def eval_defs fixMojibake_def
      latin1_encode_def accept_def byte_of_def)

lemma inbox_paths:
  "path_join (str ''inbox'') (str ''a.json'') = str ''inbox/a.json''"
  "path_join (str ''inbox'') (str ''b.json'') = str ''inbox/b.json''"
  "path_join (str ''inbox'') (str ''notes.txt'') = str ''inbox/notes.txt''"
  by (simp_all add: path_join_def str_def)

lemma inbox_nodes:
  "inbox (str ''inbox'') = Directory [str ''b.json'', str ''a.json'', str ''notes.txt'']"
  "inbox (str ''inbox/a.json'') = 
        Regular (Some (conversation [''Alice'', ''Sam'']
          [message ''Sam'' 1 ''Sam set your nickname to Bob.'',
           message ''Sam'' 1 ''Sam set your nickname to Bob.'',
           message ''Sam'' 2 ''Sam set your nickname to Al.'']))"
  "inbox (str ''inbox/b.json'') = 
        Regular (Some (conversation [''Alice'', ''Cy'']
          [message ''Cy'' 9 ''Cy set your nickname to Ace.'']))"
  "inbox (str ''inbox/notes.txt'') = Regular None"
  "inbox (str ''nowhere'') = Absent"
  "inbox (str ''bad.json'') =
        Regular (Some (conversation [''Alice'', ''Sam'']
          [message ''Sam'' 1 ''Sam set your nickname to Bob.'',
           message ''Sam'' 2 lone_byte_content,
           message ''Sam'' 3 ''Sam set your nickname to Al.'']))"
  by (simp_all add: inbox_def str_def)

lemma inbox_records:
  "file_records inbox None (str ''inbox/a.json'')
     = [\<lparr>timestamp_ms = JInt 1, nickname = str ''Bob''\<rparr>,
        \<lparr>timestamp_ms = JInt 1, nickname = str ''Bob''\<rparr>,
        \<lparr>timestamp_ms = JInt 2, nickname = str ''Al''\<rparr>]"
  "file_records inbox None (str ''inbox/b.json'')
     = [\<lparr>timestamp_ms = JInt 9, nickname = str ''Ace''\<rparr>]"
  "file_records inbox None (str ''inbox/notes.txt'') = []"
  "file_records inbox None (str ''nowhere'') = []"
  by (simp_all add: file_records_def json_load_def inbox_nodes try_body_def truthy_def
      conversation_def and_then_def scan_message_example)


text \<open>
  C8. After a run over a list of files the result list is the concatenation, in the order the
  files were supplied, of the records of each file; a directory run concatenates in the order
  of the listing. The records of a file whose messages are reached are the concatenation, in
  message order, of the records of its messages up to the first one that raises. Nothing is
  merged: a list of files supplied twice yields its records twice.
\<close>

theorem result_keeps_order_and_repeats:
  "result (findInFiles fs files st) = concat (map (file_records fs (username st)) files)
   \<and> (isdir fs path \<longrightarrow>
        result (findInDirectory fs path st)
          = concat (map (\<lambda>n. file_records fs (username st) (path_join path n)) (listdir fs path)))
   \<and> (json_load fs f = Some jdata
        \<and> (\<not> truthy u \<or> (\<exists>ps. getitem jdata (str ''participants'') = Inr ps
                                \<and> isParticipant u ps = Inr True))
        \<and> and_then (getitem jdata (str ''messages'')) iterate = Inr ms
      \<longrightarrow> file_records fs u f
            = concat (map (message_records u) (takeWhile (\<lambda>m. \<not> raises u m) ms)))
   \<and> result (findInFiles fs (files @ files) st)
        = result (findInFiles fs files st) @ result (findInFiles fs files st)"
proof -
  have files: "result (findInFiles fs xs st) = concat (map (file_records fs (username st)) xs)"
    for xs
    using findInFiles_loop_result [of fs xs "initProcess st"]
    by (simp add: findInFiles_def initProcess_def)
  have directory: "result (findInDirectory fs path st)
          = concat (map (\<lambda>n. file_records fs (username st) (path_join path n)) (listdir fs path))"
    if "isdir fs path"
    using that findInDirectory_loop_result [of fs path "listdir fs path" "initProcess st"]
    by (simp add: findInDirectory_def initProcess_def)
  have one: "file_records fs u f
            = concat (map (message_records u) (takeWhile (\<lambda>m. \<not> raises u m) ms))"
    if "json_load fs f = Some jdata"
      and "\<not> truthy u \<or> (\<exists>ps. getitem jdata (str ''participants'') = Inr ps
                                \<and> isParticipant u ps = Inr True)"
      and "and_then (getitem jdata (str ''messages'')) iterate = Inr ms"
    using that(1) try_body_loop [OF that(2,3), of "[]"] messages_loop_records [of u ms]
    by (simp add: file_records_def)
  show ?thesis
    using directory one by (simp add: files)
qed

text \<open>
  The files \<open>b.json\<close>, \<open>a.json\<close> and the directory \<open>inbox\<close>: the record of \<open>b.json\<close> comes
  first, then the three of \<open>a.json\<close> in message order, the repeated one twice.
\<close>

theorem result_keeps_order_and_repeats_witness:
  "result (findInFiles inbox [str ''inbox/b.json'', str ''nowhere'', str ''inbox/a.json'']
      FBNicknameFinder)
     = [\<lparr>timestamp_ms = JInt 9, nickname = str ''Ace''\<rparr>,
        \<lparr>timestamp_ms = JInt 1, nickname = str ''Bob''\<rparr>,
        \<lparr>timestamp_ms = JInt 1, nickname = str ''Bob''\<rparr>,
        \<lparr>timestamp_ms = JInt 2, nickname = str ''Al''\<rparr>]
   \<and> isdir inbox (str ''inbox'')
   \<and> result (findInDirectory inbox (str ''inbox'') FBNicknameFinder)
     = [\<lparr>timestamp_ms = JInt 9, nickname = str ''Ace''\<rparr>,
        \<lparr>timestamp_ms = JInt 1, nickname = str ''Bob''\<rparr>,
        \<lparr>timestamp_ms = JInt 1, nickname = str ''Bob''\<rparr>,
        \<lparr>timestamp_ms = JInt 2, nickname = str ''Al''\<rparr>]
   \<and> json_load inbox (str ''inbox/b.json'')
     = Some (conversation [''Alice'', ''Cy''] [message ''Cy'' 9 ''Cy set your nickname to Ace.''])
   \<and> file_records inbox None (str ''inbox/b.json'')
     = concat (map (message_records None)
         (takeWhile (\<lambda>m. \<not> raises None m) [message ''Cy'' 9 ''Cy set your nickname to Ace.'']))"
  using result_keeps_order_and_repeats
    [of inbox "[str ''inbox/b.json'', str ''nowhere'', str ''inbox/a.json'']" FBNicknameFinder
        "str ''inbox''" "str ''inbox/b.json''"
        "conversation [''Alice'', ''Cy''] [message ''Cy'' 9 ''Cy set your nickname to Ace.'']"
        None "[message ''Cy'' 9 ''Cy set your nickname to Ace.'']"]
  by (simp add: FBNicknameFinder_def inbox_records inbox_nodes inbox_paths isdir_def listdir_def
      json_load_def truthy_def conversation_def and_then_def)

section \<open>The username filters\<close>

lemma unfixMojibake_Alice: "unfixMojibake (str ''Alice'') = Inr (str ''Alice'')"
  by (simp add: unfixMojibake_def and_then_def str_def utf8_encode_char_def latin1_decode_def
      byte_of_def)

lemma scan_message_own:
  assumes "truthy u" and "getitem m (str ''sender_name'') = Inr sn" and "eq_username sn u"
  shows "scan_message u m acc = Inr acc"
  using assms by (simp add: scan_message_def and_then_def)

lemma messages_loop_skip:
  assumes "\<And>acc. scan_message u m acc = Inr acc"
  shows "messages_loop u (pre @ m # post) acc = messages_loop u (pre @ post) acc"
  using assms by (simp add: messages_loop_append split: prod.splits option.splits)

text \<open>
  C6. Configuring the username \<open>'Alice'\<close> stores \<open>'Alice'\<close>. With that username, a message
  whose \<open>sender_name\<close> is \<open>'Alice'\<close> is skipped before its type or content is read: it leaves
  the result list as it was, whatever else it holds, contributes no record, and a run over
  the messages of a file gives the same result and the same error with the message as
  without it.
\<close>

theorem own_message_skipped:
  "setUsername (Some (str ''Alice'')) st
     = (st\<lparr>username := Some (str ''Alice''),
            stdout := stdout st @ [INFO_skipping (str ''Alice'')]\<rparr>, None)
   \<and> (getitem m (str ''sender_name'') = Inr (JStr (str ''Alice'')) \<longrightarrow>
        scan_message (Some (str ''Alice'')) m acc = Inr acc
        \<and> message_records (Some (str ''Alice'')) m = []
        \<and> messages_loop (Some (str ''Alice'')) (pre @ m # post) acc
            = messages_loop (Some (str ''Alice'')) (pre @ post) acc)"
proof (intro conjI impI)
  show "setUsername (Some (str ''Alice'')) st
     = (st\<lparr>username := Some (str ''Alice''),
            stdout := stdout st @ [INFO_skipping (str ''Alice'')]\<rparr>, None)"
    by (simp add: setUsername_def unfixMojibake_Alice) (simp add: str_def)
next
  assume sender: "getitem m (str ''sender_name'') = Inr (JStr (str ''Alice''))"
  have alice: "truthy (Some (str ''Alice''))"
    by (simp add: truthy_def str_def)
  have skip: "scan_message (Some (str ''Alice'')) m a = Inr a" for a
    using scan_message_own [OF alice sender] by (simp add: eq_username_def)
  show "scan_message (Some (str ''Alice'')) m acc = Inr acc"
    by (rule skip)
  show "message_records (Some (str ''Alice'')) m = []"
    by (simp add: message_records_def skip)
  show "messages_loop (Some (str ''Alice'')) (pre @ m # post) acc
            = messages_loop (Some (str ''Alice'')) (pre @ post) acc"
    using skip by (rule messages_loop_skip)
qed

text \<open>
  A message from Alice whose content matches the phrase, between two messages from Sam: only
  the two from Sam give records.
\<close>

theorem own_message_skipped_witness:
  "getitem (message ''Alice'' 5 ''Alice set your nickname to Zed.'') (str ''sender_name'')
     = Inr (JStr (str ''Alice''))
   \<and> scan_message None (message ''Alice'' 5 ''Alice set your nickname to Zed.'') []
     = Inr [\<lparr>timestamp_ms = JInt 5, nickname = str ''Zed''\<rparr>]
   \<and> scan_message (Some (str ''Alice'')) (message ''Alice'' 5 ''Alice set your nickname to Zed.'') []
     = Inr []
   \<and> messages_loop (Some (str ''Alice''))
        [message ''Sam'' 1 ''Sam set your nickname to Bob.'',
         message ''Alice'' 5 ''Alice set your nickname to Zed.'',
         message ''Sam'' 2 ''Sam set your nickname to Al.''] []
     = ([\<lparr>timestamp_ms = JInt 1, nickname = str ''Bob''\<rparr>,
         \<lparr>timestamp_ms = JInt 2, nickname = str ''Al''\<rparr>], None)"
proof -
  have sender: "getitem (message ''Alice'' 5 ''Alice set your nickname to Zed.'') (str ''sender_name'')
     = Inr (JStr (str ''Alice''))"
    by (simp add: message_def)
  have scanned: "scan_message None (message ''Alice'' 5 ''Alice set your nickname to Zed.'') []
     = Inr [\<lparr>timestamp_ms = JInt 5, nickname = str ''Zed''\<rparr>]"
    by (simp add: message_def scan_message_def and_then_def truthy_def eval_defs fixMojibake_def
      latin1_encode_def accept_def byte_of_def)
  have others: "messages_loop (Some (str ''Alice''))
        [message ''Sam'' 1 ''Sam set your nickname to Bob.'',
         message ''Sam'' 2 ''Sam set your nickname to Al.''] []
     = ([\<lparr>timestamp_ms = JInt 1, nickname = str ''Bob''\<rparr>,
         \<lparr>timestamp_ms = JInt 2, nickname = str ''Al''\<rparr>], None)"
    by (simp add: message_def scan_message_def and_then_def truthy_def eq_username_def eval_defs
      fixMojibake_def latin1_encode_def accept_def byte_of_def)
  show ?thesis
    using sender scanned others
      own_message_skipped [of FBNicknameFinder "message ''Alice'' 5 ''Alice set your nickname to Zed.''"
        "[]" "[message ''Sam'' 1 ''Sam set your nickname to Bob.'']"
        "[message ''Sam'' 2 ''Sam set your nickname to Al.'']"]
    by simp
qed

lemma isParticipant_loop_False:
  "(\<forall>p\<in>set ps. \<exists>n. getitem p (str ''name'') = Inr n \<and> \<not> eq_username n u)
     \<Longrightarrow> isParticipant_loop u ps = Inr False"
  by (induction ps) auto

lemma isParticipant_loop_not_True:
  "(\<forall>p\<in>set ps. getitem p (str ''name'') \<noteq> Inr (JStr s))
     \<Longrightarrow> isParticipant_loop (Some s) ps \<noteq> Inr True"
  by (induction ps) (auto simp: eq_username_def split: sum.splits)

lemma try_body_not_True:
  assumes "truthy u"
    and "\<And>ps. getitem jdata (str ''participants'') = Inr ps \<Longrightarrow> isParticipant u ps \<noteq> Inr True"
  shows "fst (try_body u jdata acc) = acc"
  using assms by (auto simp: try_body_def and_then_def split: sum.splits bool.splits)

lemma result_findInFile_try_body:
  "json_load fs f = Some jdata \<Longrightarrow>
   result (findInFile fs f st) = fst (try_body (username st) jdata (result st))"
  by (simp add: findInFile_def split: prod.splits option.splits)

text \<open>
  C7, as amended. Let the username be \<open>'Alice'\<close> and let a file load as \<open>jdata\<close> with a list of
  participants. If every entry has a \<open>name\<close> and none of the names is \<open>'Alice'\<close>, processing
  the file changes nothing: no record, no line printed. And whatever the entries are, if none
  has the name \<open>'Alice'\<close> the result list stays as it was, whatever the messages hold.
\<close>

theorem not_a_participant_skipped:
  assumes "json_load fs f = Some jdata"
    and "username st = Some (str ''Alice'')"
    and "getitem jdata (str ''participants'') = Inr (JArr ps)"
  shows "((\<forall>p\<in>set ps. \<exists>n. getitem p (str ''name'') = Inr n \<and> n \<noteq> JStr (str ''Alice''))
            \<longrightarrow> findInFile fs f st = st)
       \<and> ((\<forall>p\<in>set ps. getitem p (str ''name'') \<noteq> Inr (JStr (str ''Alice'')))
            \<longrightarrow> result (findInFile fs f st) = result st)"
proof (intro conjI impI)
  have alice: "truthy (Some (str ''Alice''))"
    by (simp add: truthy_def str_def)
  {
    assume "\<forall>p\<in>set ps. \<exists>n. getitem p (str ''name'') = Inr n \<and> n \<noteq> JStr (str ''Alice'')"
    then have "isParticipant_loop (Some (str ''Alice'')) ps = Inr False"
      by (intro isParticipant_loop_False) (simp add: eq_username_def)
    then have "try_body (Some (str ''Alice'')) jdata (result st) = (result st, None)"
      using alice assms(3) by (simp add: try_body_def isParticipant_def and_then_def)
    then show "findInFile fs f st = st"
      using assms(1,2) by (simp add: findInFile_def)
  }
  {
    assume "\<forall>p\<in>set ps. getitem p (str ''name'') \<noteq> Inr (JStr (str ''Alice''))"
    then have "isParticipant (Some (str ''Alice'')) (JArr ps) \<noteq> Inr True"
      using isParticipant_loop_not_True [of ps "str ''Alice''"]
      by (simp add: isParticipant_def and_then_def)
    then have "fst (try_body (Some (str ''Alice'')) jdata (result st)) = result st"
      using assms(3) by (intro try_body_not_True [OF alice]) simp
    then show "result (findInFile fs f st) = result st"
      using assms(1,2) by (simp add: result_findInFile_try_body)
  }
qed

text \<open>
  A conversation of Sam and Cy with a matching message: with no username the message gives a
  record, with the username Alice the file gives nothing.
\<close>

theorem not_a_participant_skipped_witness:
  "file_records (\<lambda>p. Regular (Some (conversation [''Sam'', ''Cy'']
        [message ''Cy'' 4 ''Cy set your nickname to Ace.'']))) None (str ''c.json'')
     = [\<lparr>timestamp_ms = JInt 4, nickname = str ''Ace''\<rparr>]
   \<and> findInFile (\<lambda>p. Regular (Some (conversation [''Sam'', ''Cy'']
        [message ''Cy'' 4 ''Cy set your nickname to Ace.''])))
       (str ''c.json'') (FBNicknameFinder\<lparr>username := Some (str ''Alice'')\<rparr>)
     = FBNicknameFinder\<lparr>username := Some (str ''Alice'')\<rparr>"
proof -
  let ?jdata = "conversation [''Sam'', ''Cy''] [message ''Cy'' 4 ''Cy set your nickname to Ace.'']"
  let ?fs = "\<lambda>p::pystr. Regular (Some ?jdata)"
  let ?st = "FBNicknameFinder\<lparr>username := Some (str ''Alice'')\<rparr>"
  have load: "json_load ?fs (str ''c.json'') = Some ?jdata"
    by (simp add: json_load_def)
  have user: "username ?st = Some (str ''Alice'')"
    by simp
  have parts: "getitem ?jdata (str ''participants'')
      = Inr (JArr [JObj [(str ''name'', JStr (str ''Sam''))], JObj [(str ''name'', JStr (str ''Cy''))]])"
    by (simp add: conversation_def)
  have records: "file_records ?fs None (str ''c.json'')
     = [\<lparr>timestamp_ms = JInt 4, nickname = str ''Ace''\<rparr>]"
    by (simp add: file_records_def json_load_def try_body_def truthy_def
      conversation_def and_then_def scan_message_example)
  show ?thesis
    using records not_a_participant_skipped [OF load user parts]
    by simp
qed

text \<open>
  C7 as stated fails: the participants below are Sam and an entry without \<open>name\<close>, so no
  entry has the name \<open>'Alice'\<close>; with the username Alice, reading the \<open>name\<close> of the second
  entry raises the missing-key error, and the file is logged as bad instead of being skipped
  without error. It still gives no record.
\<close>

theorem not_a_participant_skipped_counterexample:
  "getitem (JObj [(str ''participants'',
                   JArr [JObj [(str ''name'', JStr (str ''Sam''))], JObj [(str ''id'', JInt 7)]]),
                  (str ''messages'', JArr [message ''Sam'' 4 ''Sam set your nickname to Bob.''])])
     (str ''participants'')
     = Inr (JArr [JObj [(str ''name'', JStr (str ''Sam''))], JObj [(str ''id'', JInt 7)]])
   \<and> getitem (JObj [(str ''name'', JStr (str ''Sam''))]) (str ''name'') = Inr (JStr (str ''Sam''))
   \<and> JStr (str ''Sam'') \<noteq> JStr (str ''Alice'')
   \<and> getitem (JObj [(str ''id'', JInt 7)]) (str ''name'') = Inl (KeyError (str ''name''))
   \<and> findInFile
        (\<lambda>p. Regular (Some (JObj [(str ''participants'',
                   JArr [JObj [(str ''name'', JStr (str ''Sam''))], JObj [(str ''id'', JInt 7)]]),
                  (str ''messages'', JArr [message ''Sam'' 4 ''Sam set your nickname to Bob.''])])))
        (str ''c.json'') (FBNicknameFinder\<lparr>username := Some (str ''Alice'')\<rparr>)
     = FBNicknameFinder\<lparr>username := Some (str ''Alice''),
          stdout := [Error_bad_json (str ''c.json'')]\<rparr>
   \<and> findInFile
        (\<lambda>p. Regular (Some (JObj [(str ''participants'',
                   JArr [JObj [(str ''name'', JStr (str ''Sam''))], JObj [(str ''id'', JInt 7)]]),
                  (str ''messages'', JArr [message ''Sam'' 4 ''Sam set your nickname to Bob.''])])))
        (str ''c.json'') (FBNicknameFinder\<lparr>username := Some (str ''Alice'')\<rparr>)
     \<noteq> FBNicknameFinder\<lparr>username := Some (str ''Alice'')\<rparr>"
proof -
  have alice: "str ''Alice'' \<noteq> []"
    by (simp add: str_def)
  show ?thesis
    using alice
    by (simp add: findInFile_def json_load_def try_body_def truthy_def and_then_def
        isParticipant_def eq_username_def FBNicknameFinder_def)
qed

section \<open>Exceptions inside a file\<close>

lemma map_of_filter_key:
  "map_of (filter (\<lambda>kv. fst kv \<noteq> k) kvs) k' = (if k' = k then None else map_of kvs k')"
  by (induction kvs) auto


















lemma scan_message_cong:
  assumes "\<not> truthy u"
    and ty: "getitem m (str ''type'') = getitem m' (str ''type'')"
    and has: "contains m (str ''content'') = contains m' (str ''content'')"
    and content: "getitem m (str ''content'') = getitem m' (str ''content'')"
    and ts: "getitem m (str ''timestamp_ms'') = getitem m' (str ''timestamp_ms'')"
  shows "scan_message u m acc = scan_message u m' acc"
  unfolding scan_message_def ty has content ts using assms(1) by simp

lemma scan_message_ignores_sender:
  "\<not> truthy u \<Longrightarrow>
   scan_message u (JObj kvs) acc
     = scan_message u (JObj (filter (\<lambda>kv. fst kv \<noteq> str ''sender_name'') kvs)) acc"
  by (rule scan_message_cong) (simp_all add: map_of_filter_key)

lemma messages_loop_raise:
  "messages_loop u pre acc0 = (acc, None) \<Longrightarrow> scan_message u m acc = Inl e \<Longrightarrow>
   messages_loop u (pre @ m # post) acc0 = (acc, Some e)"
  by (simp add: messages_loop_append)

lemma messages_loop_kept:
  "messages_loop u pre acc0 = (acc, None) \<Longrightarrow> acc = acc0 @ concat (map (message_records u) pre)"
proof (induction pre arbitrary: acc0)
  case Nil
  then show ?case by simp
next
  case (Cons m pre)
  then obtain a where a: "scan_message u m acc0 = Inr a" and rest: "messages_loop u pre a = (acc, None)"
    by (auto split: sum.splits)
  from Cons.IH [OF rest] scan_message_records [OF a] show ?case by simp
qed



lemma findInFile_error:
  "json_load fs f = Some jdata \<Longrightarrow> try_body (username st) jdata (result st) = (r, Some e) \<Longrightarrow>
   findInFile fs f st = st\<lparr>result := r, stdout := stdout st @ [Error_bad_json f]\<rparr>"
  by (simp add: findInFile_def)



lemma scan_message_example_bad:
  "scan_message None (message ''Sam'' t lone_byte_content) acc
     = Inl UnicodeDecodeError"
  by (simp add: message_def lone_byte_content_def scan_message_def and_then_def truthy_def
      eval_defs fixMojibake_def latin1_encode_def accept_def byte_of_def)



lemma try_body_kept: "try_body u jdata acc = (r, x) \<Longrightarrow> \<exists>kept. r = acc @ kept"
  using try_body_acc [of u jdata acc] by auto

text \<open>
  C3. Let a file load as \<open>jdata\<close> and let the \<open>try\<close> block over its fields raise an exception
  \<open>e\<close>, the result list being \<open>r\<close> at that point. Then the exception is caught: the file is
  logged as bad, the result list is \<open>r\<close>, which extends the list the file started from, and
  the run goes on with the next file (of a list of files or of a directory) from that state.
  If the exception is raised by a message \<open>m\<close> that the loop reaches after the messages \<open>pre\<close>,
  then \<open>r\<close> is the list as it stood after \<open>pre\<close>, which holds the records of \<open>pre\<close>, and the
  messages after \<open>m\<close> play no part. A mojibake repair that fails on a matched nickname is
  such an exception of its message.
\<close>

theorem per_file_error_contained:
  assumes loaded: "json_load fs f = Some jdata"
    and raised: "try_body (username st) jdata (result st) = (r, Some e)"
  shows "findInFile fs f st = st\<lparr>result := r, stdout := stdout st @ [Error_bad_json f]\<rparr>
     \<and> (\<exists>kept. r = result st @ kept)
     \<and> findInFiles_loop fs (f # files) st
         = findInFiles_loop fs files (st\<lparr>result := r, stdout := stdout st @ [Error_bad_json f]\<rparr>)
     \<and> (f = path_join path n \<longrightarrow>
          findInDirectory_loop fs path (n # names) st
            = findInDirectory_loop fs path names
                (st\<lparr>result := r, stdout := stdout st @ [Error_bad_json f]\<rparr>))
     \<and> ((\<not> truthy (username st)
            \<or> (\<exists>ps. getitem jdata (str ''participants'') = Inr ps
                     \<and> isParticipant (username st) ps = Inr True))
          \<and> and_then (getitem jdata (str ''messages'')) iterate = Inr (pre @ m # post)
          \<and> messages_loop (username st) pre (result st) = (acc, None)
          \<and> scan_message (username st) m acc = Inl e'
        \<longrightarrow> r = acc \<and> e = e'
            \<and> acc = result st @ concat (map (message_records (username st)) pre))
     \<and> ((\<not> truthy u \<or> (\<exists>sn. getitem m' (str ''sender_name'') = Inr sn \<and> \<not> eq_username sn u))
          \<and> getitem m' (str ''type'') = Inr (JStr (str ''Generic''))
          \<and> getitem m' (str ''content'') = Inr (JStr s)
          \<and> REGEX_search s = Some (start, group0) \<and> 0 < start
          \<and> fixMojibake (butlast (drop PHRASE_OFFSET group0)) = Inl e''
        \<longrightarrow> scan_message u m' a = Inl e'')"
proof (intro conjI impI)
  show caught: "findInFile fs f st = st\<lparr>result := r, stdout := stdout st @ [Error_bad_json f]\<rparr>"
    using loaded raised by (rule findInFile_error)
  show "\<exists>kept. r = result st @ kept"
    using raised by (rule try_body_kept)
  show "findInFiles_loop fs (f # files) st
         = findInFiles_loop fs files (st\<lparr>result := r, stdout := stdout st @ [Error_bad_json f]\<rparr>)"
    using json_load_isfile [OF loaded] by (simp add: caught)
  {
    assume "f = path_join path n"
    then show "findInDirectory_loop fs path (n # names) st
            = findInDirectory_loop fs path names
                (st\<lparr>result := r, stdout := stdout st @ [Error_bad_json f]\<rparr>)"
      using caught by simp
  }
  {
    assume reached: "(\<not> truthy (username st)
            \<or> (\<exists>ps. getitem jdata (str ''participants'') = Inr ps
                     \<and> isParticipant (username st) ps = Inr True))
          \<and> and_then (getitem jdata (str ''messages'')) iterate = Inr (pre @ m # post)
          \<and> messages_loop (username st) pre (result st) = (acc, None)
          \<and> scan_message (username st) m acc = Inl e'"
    then have "try_body (username st) jdata (result st)
        = messages_loop (username st) (pre @ m # post) (result st)"
      by (intro try_body_loop) auto
    also have "\<dots> = (acc, Some e')"
      using reached by (intro messages_loop_raise) auto
    finally show "r = acc" and "e = e'"
      using raised by simp_all
    show "acc = result st @ concat (map (message_records (username st)) pre)"
      using reached by (intro messages_loop_kept) auto
  }
  {
    assume fails: "(\<not> truthy u \<or> (\<exists>sn. getitem m' (str ''sender_name'') = Inr sn \<and> \<not> eq_username sn u))
          \<and> getitem m' (str ''type'') = Inr (JStr (str ''Generic''))
          \<and> getitem m' (str ''content'') = Inr (JStr s)
          \<and> REGEX_search s = Some (start, group0) \<and> 0 < start
          \<and> fixMojibake (butlast (drop PHRASE_OFFSET group0)) = Inl e''"
    then have "scan_message u m' a =
       (case REGEX_search s of
          None \<Rightarrow> Inr a
        | Some (start, group0) \<Rightarrow>
            if 0 < start then
              and_then (fixMojibake (butlast (drop PHRASE_OFFSET group0))) (\<lambda>foundNickname.
              and_then (getitem m' (str ''timestamp_ms'')) (\<lambda>t.
                Inr (a @ [\<lparr>timestamp_ms = t, nickname = foundNickname\<rparr>])))
            else Inr a)"
      by (intro scan_message_eligible) auto
    with fails show "scan_message u m' a = Inl e''"
      by (simp add: and_then_def)
  }
qed

text \<open>
  The file \<open>bad.json\<close>, then \<open>inbox/b.json\<close>: the first record of \<open>bad.json\<close> is kept, its
  third message is never read, and the record of \<open>inbox/b.json\<close> follows.
\<close>

theorem per_file_error_contained_witness:
  "try_body None
     (conversation [''Alice'', ''Sam'']
        [message ''Sam'' 1 ''Sam set your nickname to Bob.'',
         message ''Sam'' 2 lone_byte_content,
         message ''Sam'' 3 ''Sam set your nickname to Al.'']) []
     = ([\<lparr>timestamp_ms = JInt 1, nickname = str ''Bob''\<rparr>], Some UnicodeDecodeError)
   \<and> findInFiles_loop inbox [str ''bad.json'', str ''inbox/b.json''] FBNicknameFinder
     = FBNicknameFinder\<lparr>result := [\<lparr>timestamp_ms = JInt 1, nickname = str ''Bob''\<rparr>,
                                   \<lparr>timestamp_ms = JInt 9, nickname = str ''Ace''\<rparr>],
                        stdout := [Error_bad_json (str ''bad.json'')]\<rparr>"
proof -
  let ?jdata = "conversation [''Alice'', ''Sam'']
        [message ''Sam'' 1 ''Sam set your nickname to Bob.'',
         message ''Sam'' 2 lone_byte_content,
         message ''Sam'' 3 ''Sam set your nickname to Al.'']"
  let ?bob = "[\<lparr>timestamp_ms = JInt 1, nickname = str ''Bob''\<rparr>]"
  have loaded: "json_load inbox (str ''bad.json'') = Some ?jdata"
    by (simp add: json_load_def inbox_nodes)
  have body: "try_body None ?jdata [] = (?bob, Some UnicodeDecodeError)"
    by (simp add: try_body_def truthy_def conversation_def and_then_def scan_message_example
        scan_message_example_bad)
  have raised: "try_body (username FBNicknameFinder) ?jdata (result FBNicknameFinder)
      = (?bob, Some UnicodeDecodeError)"
    using body by (simp add: FBNicknameFinder_def)
  have continues: "findInFiles_loop inbox (str ''bad.json'' # [str ''inbox/b.json'']) FBNicknameFinder
      = findInFiles_loop inbox [str ''inbox/b.json'']
          (FBNicknameFinder\<lparr>result := ?bob,
             stdout := stdout FBNicknameFinder @ [Error_bad_json (str ''bad.json'')]\<rparr>)"
    using per_file_error_contained [OF loaded raised, THEN conjunct2, THEN conjunct2,
        THEN conjunct1] .
  have after: "findInFiles_loop inbox [str ''inbox/b.json'']
          (FBNicknameFinder\<lparr>result := ?bob,
             stdout := stdout FBNicknameFinder @ [Error_bad_json (str ''bad.json'')]\<rparr>)
      = FBNicknameFinder\<lparr>result := [\<lparr>timestamp_ms = JInt 1, nickname = str ''Bob''\<rparr>,
                                   \<lparr>timestamp_ms = JInt 9, nickname = str ''Ace''\<rparr>],
                        stdout := [Error_bad_json (str ''bad.json'')]\<rparr>"
    by (simp add: isfile_def inbox_nodes findInFile_def json_load_def FBNicknameFinder_def
        try_body_def truthy_def conversation_def and_then_def scan_message_example)
  show ?thesis
    using body continues after by simp
qed

section \<open>The script\<close>

lemma crashed_findInFile [simp]: "crashed (findInFile fs f st) = crashed st"
  by (simp add: findInFile_def split: option.splits prod.splits)

lemma crashed_findInFiles_loop [simp]: "crashed (findInFiles_loop fs files st) = crashed st"
  by (induction files arbitrary: st) simp_all

lemma crashed_findInDirectory_loop [simp]:
  "crashed (findInDirectory_loop fs path names st) = crashed st"
  by (induction names arbitrary: st) simp_all

text \<open>
  C9. Setting the username to the empty string does what setting no username does: nothing;
  no line is printed and \<open>_unfixMojibake\<close> is not called. The whole script gives the same
  outcome for \<open>--username ''\<close> as without the option. The username of a new finder stays
  \<open>None\<close>, and with it the result of a file does not depend on its \<open>participants\<close> and the
  result of a message does not depend on its \<open>sender_name\<close>.
\<close>

theorem empty_username_is_no_username:
  "setUsername (Some []) st = setUsername None st
   \<and> setUsername None st = (st, None)
   \<and> main fs (a\<lparr>arg_username := Some []\<rparr>) = main fs (a\<lparr>arg_username := None\<rparr>)
   \<and> username (fst (setUsername (Some []) FBNicknameFinder)) = None
   \<and> try_body None (JObj kvs) acc
       = try_body None (JObj (filter (\<lambda>kv. fst kv \<noteq> str ''participants'') kvs)) acc
   \<and> scan_message None (JObj kvs) acc
       = scan_message None (JObj (filter (\<lambda>kv. fst kv \<noteq> str ''sender_name'') kvs)) acc"
proof (intro conjI)
  show "setUsername (Some []) st = setUsername None st"
    and "setUsername None st = (st, None)"
    by (simp_all add: setUsername_def)
  show "main fs (a\<lparr>arg_username := Some []\<rparr>) = main fs (a\<lparr>arg_username := None\<rparr>)"
    by (simp add: main_def setUsername_def report_def)
  show "username (fst (setUsername (Some []) FBNicknameFinder)) = None"
    by (simp add: setUsername_def FBNicknameFinder_def)
  show "try_body None (JObj kvs) acc
       = try_body None (JObj (filter (\<lambda>kv. fst kv \<noteq> str ''participants'') kvs)) acc"
    by (simp add: try_body_def truthy_def map_of_filter_key)
  show "scan_message None (JObj kvs) acc
       = scan_message None (JObj (filter (\<lambda>kv. fst kv \<noteq> str ''sender_name'') kvs)) acc"
    by (rule scan_message_ignores_sender) (simp add: truthy_def)
qed

text \<open>
  C1 fails on the code. \<open>findInDirectory\<close> prints the fatal line and returns without
  touching \<open>crashed\<close>, which no run ever sets: after any run it is \<open>False\<close>. So the script goes
  on to \<open>printResult\<close> and \<open>writeResult\<close>: for the directory \<open>nowhere\<close>, which does not exist,
  it prints the fatal line, reads no entry, and writes the output file with an empty result.
\<close>

theorem invalid_directory_output_written:
  "crashed (findInDirectory fs path st) = False
   \<and> crashed (findInFiles fs files st) = False
   \<and> isdir inbox (str ''nowhere'') = False
   \<and> main inbox \<lparr>arg_file = [], arg_directory = Some (str ''nowhere''), arg_username = None,
                  arg_output = str ''output.json''\<rparr>
     = \<lparr>printed = [FATAL_invalid_directory (str ''nowhere''), Found_nicknames 0,
                   Output_written (str ''output.json'')],
        written = Some (str ''output.json'', \<lparr>doc_result = [], doc_length = 0\<rparr>),
        uncaught = None\<rparr>"
proof (intro conjI)
  show "crashed (findInDirectory fs path st) = False"
    by (simp add: findInDirectory_def initProcess_def)
  show "crashed (findInFiles fs files st) = False"
    by (simp add: findInFiles_def initProcess_def)
  show missing: "isdir inbox (str ''nowhere'') = False"
    by (simp add: isdir_def inbox_nodes)
  have "truthy (Some (str ''nowhere''))"
    by (simp add: truthy_def str_def)
  then show "main inbox \<lparr>arg_file = [], arg_directory = Some (str ''nowhere''), arg_username = None,
                  arg_output = str ''output.json''\<rparr>
     = \<lparr>printed = [FATAL_invalid_directory (str ''nowhere''), Found_nicknames 0,
                   Output_written (str ''output.json'')],
        written = Some (str ''output.json'', \<lparr>doc_result = [], doc_length = 0\<rparr>),
        uncaught = None\<rparr>"
    using missing
    by (simp add: main_def setUsername_def FBNicknameFinder_def findInDirectory_def
        initProcess_def report_def printResult_def writeResult_def Counter_def)
qed

end
